theory Spec2Isabelle
  imports Complex_Main "HOL-Library.AList"
begin

section \<open>Numbers\<close>

text \<open>
  Every numeric field of the server is a JavaScript Number, an IEEE 754 binary64 value.
  A finite Number is modelled by the real it denotes, and every arithmetic operation of
  the source by the exact operation followed by \<open>fl64\<close>, rounding to the nearest
  binary64 value with ties to the even mantissa, as ECMAScript prescribes for \<open>+\<close>,
  \<open>-\<close> and \<open>*\<close>. \<open>Math.sqrt\<close> and \<open>** 2\<close> are taken as correctly rounded.
  NaN and the infinities are not modelled: inputs are finite, and no value of the game
  comes near \<open>2 ^ 1024\<close>.

  \<open>expo x\<close> is the binary exponent of \<open>x\<close>, held at \<open>-1022\<close> for subnormal values, so
  the spacing of binary64 values around \<open>x\<close> is \<open>pow2 (expo x - 52)\<close>.
\<close>

fun bits :: "nat \<Rightarrow> int" where
  "bits n = (if n = 0 then 0 else 1 + bits (n div 2))"

declare bits.simps [simp del]

fun doublings :: "nat \<Rightarrow> real \<Rightarrow> int" where
  "doublings 0 x = 0"
| "doublings (Suc n) x = (if 1 \<le> x then 0 else 1 + doublings n (2 * x))"

definition expo :: "real \<Rightarrow> int" where
  "expo x = (if 1 \<le> \<bar>x\<bar> then bits (nat \<lfloor>\<bar>x\<bar>\<rfloor>) - 1 else - doublings 1022 \<bar>x\<bar>)"

definition pow2 :: "int \<Rightarrow> real" where
  "pow2 e = (if 0 \<le> e then 2 ^ nat e else 1 / 2 ^ nat (- e))"

definition round_even :: "real \<Rightarrow> int" where
  "round_even y = (let f = \<lfloor>y\<rfloor>; d = y - of_int f in
     if d < 1/2 then f else if 1/2 < d then f + 1 else if even f then f else f + 1)"

definition fl64 :: "real \<Rightarrow> real" where
  "fl64 x = (let u = pow2 (expo x - 52) in of_int (round_even (x / u)) * u)"

definition fadd :: "real \<Rightarrow> real \<Rightarrow> real" where
  "fadd a b = fl64 (a + b)"

definition fsub :: "real \<Rightarrow> real \<Rightarrow> real" where
  "fsub a b = fl64 (a - b)"

definition fmul :: "real \<Rightarrow> real \<Rightarrow> real" where
  "fmul a b = fl64 (a * b)"

text \<open>\<open>Math.sqrt((a - c) ** 2 + (b - d) ** 2)\<close>, the distance of both range tests.\<close>

definition euclid :: "real \<Rightarrow> real \<Rightarrow> real \<Rightarrow> real \<Rightarrow> real" where
  "euclid a b c d = fl64 (sqrt (fadd (fl64 ((fsub a c)\<^sup>2)) (fl64 ((fsub b d)\<^sup>2))))"

text \<open>
  The template literal \<open>`${k}`\<close> of a non-negative integer below \<open>10 ^ 21\<close>: its
  decimal digits.
\<close>

fun string_of_nat :: "nat \<Rightarrow> string" where
  "string_of_nat n =
     (if n < 10 then [''0123456789'' ! n]
      else string_of_nat (n div 10) @ [''0123456789'' ! (n mod 10)])"

declare string_of_nat.simps [simp del]

section \<open>Data model\<close>

text \<open>
  The interfaces \<open>Player\<close> and \<open>GameState\<close> and the object pushed by the shoot
  handler. Field \<open>f\<close> of a player is \<open>p_f\<close>, of a bullet \<open>b_f\<close>, of the zone \<open>z_f\<close>.
  \<open>players\<close> is an object keyed by socket id: an association list in insertion order,
  which is the order of \<open>for ... in\<close> and of \<open>Object.keys\<close> (socket ids are not array
  indices). Assigning to a key that is present keeps its place, assigning to a new key
  appends, as \<open>AList.update\<close> does.
\<close>

record player =
  p_id :: string
  p_name :: string
  p_x :: real
  p_y :: real
  p_health :: real
  p_teamId :: string
  p_kills :: nat
  p_isDead :: bool
  p_angle :: real

record bullet =
  b_id :: string
  b_ownerId :: string
  b_teamId :: string
  b_x :: real
  b_y :: real
  b_angle :: real
  b_speed :: real
  b_distance :: real
  b_maxDistance :: real

record zone =
  z_x :: real
  z_y :: real
  z_radius :: real
  z_targetRadius :: real

record game_state =
  gs_players :: "(string \<times> player) list"
  gs_bullets :: "bullet list"
  gs_zone :: zone

definition MAP_SIZE :: real where
  "MAP_SIZE = 2000"

definition INITIAL_ZONE_RADIUS :: real where
  "INITIAL_ZONE_RADIUS = 1200"

definition gameState :: game_state where
  "gameState = \<lparr>gs_players = [], gs_bullets = [],
     gs_zone = \<lparr>z_x = MAP_SIZE / 2, z_y = MAP_SIZE / 2,
       z_radius = INITIAL_ZONE_RADIUS, z_targetRadius = INITIAL_ZONE_RADIUS\<rparr>\<rparr>"

section \<open>Socket handlers\<close>

text \<open>
  Each handler takes the state and the socket id and returns the new state. The emitted
  messages do not touch the state and are left out. The two results of \<open>Math.random()\<close>
  in \<open>join\<close> and the result of \<open>nanoid()\<close> in \<open>shoot\<close> are arguments. A \<open>name\<close> that
  is absent is \<open>None\<close>; \<open>name || "Player"\<close> replaces an absent and an empty name.
\<close>

definition join :: "game_state \<Rightarrow> string \<Rightarrow> string option \<Rightarrow> string \<Rightarrow> real \<Rightarrow> real \<Rightarrow> game_state" where
  "join s sid name mode r1 r2 =
     (let n = length (gs_players s);
          teamId = (if mode = ''solo'' then sid
                    else if mode = ''duo'' then ''team-d-'' @ string_of_nat (n div 2)
                    else ''team-s-'' @ string_of_nat (n div 4))
      in s\<lparr>gs_players := AList.update sid
            \<lparr>p_id = sid,
             p_name = (case name of None \<Rightarrow> ''Player''
                       | Some nm \<Rightarrow> if nm = [] then ''Player'' else nm),
             p_x = fmul r1 MAP_SIZE,
             p_y = fmul r2 MAP_SIZE,
             p_health = 100,
             p_teamId = teamId,
             p_kills = 0,
             p_isDead = False,
             p_angle = 0\<rparr> (gs_players s)\<rparr>)"

definition move :: "game_state \<Rightarrow> string \<Rightarrow> real \<Rightarrow> real \<Rightarrow> real \<Rightarrow> game_state" where
  "move s sid x y a =
     (case map_of (gs_players s) sid of
        None \<Rightarrow> s
      | Some pl \<Rightarrow>
          if \<not> p_isDead pl
          then s\<lparr>gs_players := AList.update sid
                 (pl\<lparr>p_x := max 0 (min MAP_SIZE x),
                     p_y := max 0 (min MAP_SIZE y),
                     p_angle := a\<rparr>) (gs_players s)\<rparr>
          else s)"

definition shoot :: "game_state \<Rightarrow> string \<Rightarrow> string \<Rightarrow> game_state" where
  "shoot s sid new_id =
     (case map_of (gs_players s) sid of
        None \<Rightarrow> s
      | Some pl \<Rightarrow>
          if \<not> p_isDead pl
          then s\<lparr>gs_bullets := gs_bullets s @
                 [\<lparr>b_id = new_id, b_ownerId = sid, b_teamId = p_teamId pl,
                   b_x = p_x pl, b_y = p_y pl, b_angle = p_angle pl,
                   b_speed = 15, b_distance = 0, b_maxDistance = 600\<rparr>]\<rparr>
          else s)"

definition disconnect :: "game_state \<Rightarrow> string \<Rightarrow> game_state" where
  "disconnect s sid = s\<lparr>gs_players := AList.delete sid (gs_players s)\<rparr>"

section \<open>Game loop\<close>

text \<open>
  ECMAScript leaves the values of \<open>Math.cos\<close> and \<open>Math.sin\<close> to the engine, up to
  \<open>Math.cos(0) = 1\<close> and \<open>Math.sin(0) = 0\<close>, and engines differ in the last place. The
  two functions are therefore an argument of the game loop.
\<close>

record engine =
  Math_cos :: "real \<Rightarrow> real"
  Math_sin :: "real \<Rightarrow> real"

text \<open>The three updates at the head of the bullet loop.\<close>

definition advance :: "engine \<Rightarrow> bullet \<Rightarrow> bullet" where
  "advance E b = b\<lparr>b_x := fadd (b_x b) (fmul (Math_cos E (b_angle b)) (b_speed b)),
                 b_y := fadd (b_y b) (fmul (Math_sin E (b_angle b)) (b_speed b)),
                 b_distance := fadd (b_distance b) (b_speed b)\<rparr>"

text \<open>The two nested tests of the collision loop.\<close>

definition candidate :: "bullet \<Rightarrow> player \<Rightarrow> bool" where
  "candidate b p \<longleftrightarrow> p_id p \<noteq> b_ownerId b \<and> p_teamId p \<noteq> b_teamId b \<and> \<not> p_isDead p"

definition in_range :: "bullet \<Rightarrow> player \<Rightarrow> bool" where
  "in_range b p \<longleftrightarrow> euclid (p_x p) (p_y p) (b_x b) (b_y b) < 20"

text \<open>
  The collision loop runs over the players in order and stops, by \<open>break\<close>, at the first
  one that passes both tests: \<open>scan\<close> finds that player, \<open>hit\<close> is the body run on it.
\<close>

fun scan :: "bullet \<Rightarrow> (string \<times> player) list \<Rightarrow> (string \<times> player) option" where
  "scan b [] = None"
| "scan b ((pid, p) # rest) =
     (if candidate b p \<and> in_range b p then Some (pid, p) else scan b rest)"

definition hit :: "bullet \<Rightarrow> string \<Rightarrow> player \<Rightarrow> (string \<times> player) list \<Rightarrow> (string \<times> player) list" where
  "hit b pid p ps =
     (let p1 = p\<lparr>p_health := fsub (p_health p) 20\<rparr>
      in if p_health p1 \<le> 0
         then (let ps1 = AList.update pid (p1\<lparr>p_isDead := True\<rparr>) ps
               in case map_of ps1 (b_ownerId b) of
                    None \<Rightarrow> ps1
                  | Some killer \<Rightarrow>
                      AList.update (b_ownerId b) (killer\<lparr>p_kills := p_kills killer + 1\<rparr>) ps1)
         else AList.update pid p1 ps)"

definition collide :: "bullet \<Rightarrow> (string \<times> player) list \<Rightarrow> (string \<times> player) list option" where
  "collide b ps = (case scan b ps of None \<Rightarrow> None | Some (pid, p) \<Rightarrow> Some (hit b pid p ps))"

text \<open>
  One round of the bullet loop: the bullet that stays in the array, if it does, and the
  players after it. The bullet is spliced out when it has flown too far and when it hits.
\<close>

definition bullet_step :: "engine \<Rightarrow> bullet \<Rightarrow> (string \<times> player) list \<Rightarrow> bullet option \<times> (string \<times> player) list" where
  "bullet_step E b ps =
     (let b1 = advance E b
      in if b_distance b1 > b_maxDistance b1 then (None, ps)
         else case collide b1 ps of
                None \<Rightarrow> (Some b1, ps)
              | Some ps1 \<Rightarrow> (None, ps1))"

text \<open>The loop runs from the last index down to 0: the tail of the list goes first.\<close>

fun update_bullets :: "engine \<Rightarrow> bullet list \<Rightarrow> (string \<times> player) list \<Rightarrow> bullet list \<times> (string \<times> player) list" where
  "update_bullets E [] ps = ([], ps)"
| "update_bullets E (b # bs) ps =
     (let (bs1, ps1) = update_bullets E bs ps;
          (kept, ps2) = bullet_step E b ps1
      in (case kept of None \<Rightarrow> bs1 | Some b1 \<Rightarrow> b1 # bs1, ps2))"

definition update_zone :: "zone \<Rightarrow> zone" where
  "update_zone z = (if z_radius z > 50 then z\<lparr>z_radius := fsub (z_radius z) (fl64 (1/10))\<rparr> else z)"

definition zone_damage :: "zone \<Rightarrow> player \<Rightarrow> player" where
  "zone_damage z p =
     (if \<not> p_isDead p
      then (if euclid (p_x p) (p_y p) (z_x z) (z_y z) > z_radius z
            then (let p1 = p\<lparr>p_health := fsub (p_health p) (1/2)\<rparr>
                  in if p_health p1 \<le> 0 then p1\<lparr>p_isDead := True\<rparr> else p1)
            else p)
      else p)"

definition tick :: "engine \<Rightarrow> game_state \<Rightarrow> game_state" where
  "tick E s =
     (let (bs, ps) = update_bullets E (gs_bullets s) (gs_players s);
          z = update_zone (gs_zone s)
      in \<lparr>gs_players = AList.map_ran (\<lambda>pid. zone_damage z) ps, gs_bullets = bs, gs_zone = z\<rparr>)"

section \<open>Executions\<close>

text \<open>
  The server runs one handler or one round of the game loop at a time. An execution is a
  list of such events, applied in order to the initial \<open>gameState\<close>, on a given engine.
\<close>

datatype event =
    Join string "string option" string real real
  | Move string real real real
  | Shoot string string
  | Disconnect string
  | Tick

fun step :: "engine \<Rightarrow> game_state \<Rightarrow> event \<Rightarrow> game_state" where
  "step E s (Join sid name mode r1 r2) = join s sid name mode r1 r2"
| "step E s (Move sid x y a) = move s sid x y a"
| "step E s (Shoot sid new_id) = shoot s sid new_id"
| "step E s (Disconnect sid) = disconnect s sid"
| "step E s Tick = tick E s"

definition run :: "engine \<Rightarrow> event list \<Rightarrow> game_state" where
  "run E evs = foldl (step E) gameState evs"

text \<open>
  The hits of one round of the bullet loop, in the order in which they happen. There is
  an entry each time the loop runs the body of the range test (\<open>p.health -= 20\<close> and
  what follows): the bullet as it is then, the key of the player and the player as it
  was. The loop itself keeps no such list; \<open>hit_log\<close> is the list of all the hits of an
  execution, and \<open>shot_ids\<close> are the ids of its shoot events, the results of \<open>nanoid()\<close>
  (a shoot that creates no bullet leaves its id unused).
\<close>

fun round_hits :: "engine \<Rightarrow> bullet list \<Rightarrow> (string \<times> player) list \<Rightarrow> (bullet \<times> string \<times> player) list" where
  "round_hits E [] ps = []"
| "round_hits E (b # bs) ps =
     (let ps1 = snd (update_bullets E bs ps); b1 = advance E b
      in round_hits E bs ps @
         (if b_distance b1 > b_maxDistance b1 then []
          else case scan b1 ps1 of None \<Rightarrow> [] | Some (pid, p) \<Rightarrow> [(b1, pid, p)]))"

fun hits_from :: "engine \<Rightarrow> game_state \<Rightarrow> event list \<Rightarrow> (bullet \<times> string \<times> player) list" where
  "hits_from E s [] = []"
| "hits_from E s (ev # evs) =
     (if ev = Tick then round_hits E (gs_bullets s) (gs_players s) else [])
       @ hits_from E (step E s ev) evs"

definition hit_log :: "engine \<Rightarrow> event list \<Rightarrow> (bullet \<times> string \<times> player) list" where
  "hit_log E evs = hits_from E gameState evs"

fun shot_ids :: "event list \<Rightarrow> string list" where
  "shot_ids [] = []"
| "shot_ids (Shoot sid new_id # evs) = new_id # shot_ids evs"
| "shot_ids (ev # evs) = shot_ids evs"

text \<open>A player is consistent when its dead flag says whether its health is used up.\<close>

definition consistent :: "player \<Rightarrow> bool" where
  "consistent p \<longleftrightarrow> p_isDead p = (p_health p \<le> 0)"

definition all_consistent :: "(string \<times> player) list \<Rightarrow> bool" where
  "all_consistent ps \<longleftrightarrow> (\<forall>e \<in> set ps. consistent (snd e))"

subsection \<open>Sample executions\<close>

text \<open>
  An engine for the sample executions. They fire at angle 0 only, where every engine
  returns 1 for the cosine and 0 for the sine, as this one does.
\<close>

abbreviation trig :: engine where
  "trig \<equiv> \<lparr>Math_cos = (\<lambda>a. fl64 (cos a)), Math_sin = (\<lambda>a. fl64 (sin a))\<rparr>"

text \<open>
  A player as \<open>join\<close> creates it when both random numbers are \<open>1/2\<close>, in the middle of
  the map, and a bullet as \<open>shoot\<close> creates it for such a player.
\<close>

abbreviation spawned :: "string \<Rightarrow> string \<Rightarrow> string \<Rightarrow> player" where
  "spawned sid nm team \<equiv>
     \<lparr>p_id = sid, p_name = nm, p_x = 1000, p_y = 1000, p_health = 100,
      p_teamId = team, p_kills = 0, p_isDead = False, p_angle = 0\<rparr>"

abbreviation shot :: "string \<Rightarrow> string \<Rightarrow> string \<Rightarrow> bullet" where
  "shot sid team new_id \<equiv>
     \<lparr>b_id = new_id, b_ownerId = sid, b_teamId = team, b_x = 1000, b_y = 1000,
      b_angle = 0, b_speed = 15, b_distance = 0, b_maxDistance = 600\<rparr>"

text \<open>Two solo players on one spot, the first of whom has fired five times.\<close>

abbreviation volley :: "event list" where
  "volley \<equiv> [Join ''a'' (Some ''Ann'') ''solo'' (1/2) (1/2), Join ''b'' None ''solo'' (1/2) (1/2),
     Shoot ''a'' ''1'', Shoot ''a'' ''2'', Shoot ''a'' ''3'', Shoot ''a'' ''4'', Shoot ''a'' ''5'']"

text \<open>The same, and the loop has run once.\<close>

abbreviation duel :: "event list" where
  "duel \<equiv> [Join ''a'' (Some ''Ann'') ''solo'' (1/2) (1/2), Join ''b'' None ''solo'' (1/2) (1/2),
     Shoot ''a'' ''1'', Shoot ''a'' ''2'', Shoot ''a'' ''3'', Shoot ''a'' ''4'', Shoot ''a'' ''5'',
     Tick]"

text \<open>Four shots land, the shooter fires a fifth and disconnects before the loop runs again.\<close>

abbreviation orphan :: "event list" where
  "orphan \<equiv> [Join ''a'' (Some ''Ann'') ''solo'' (1/2) (1/2), Join ''b'' None ''solo'' (1/2) (1/2),
     Shoot ''a'' ''1'', Shoot ''a'' ''2'', Shoot ''a'' ''3'', Shoot ''a'' ''4'', Tick,
     Shoot ''a'' ''5'', Disconnect ''a'']"

text \<open>Two players of one duo team, one of whom has fired.\<close>

abbreviation duo_lobby :: "event list" where
  "duo_lobby \<equiv> [Join ''a'' None ''duo'' (1/2) (1/2), Join ''b'' None ''duo'' (1/2) (1/2),
     Shoot ''a'' ''1'']"

section \<open>Rounding\<close>

lemma fl64_zero: "fl64 0 = 0"
  by (simp add: fl64_def round_even_def)

lemma bits_binade: "2 ^ e \<le> n \<Longrightarrow> n < 2 ^ Suc e \<Longrightarrow> bits n = int e + 1"
proof (induction e arbitrary: n)
  case 0
  then have "n = 1" by simp
  then show ?case by (simp add: bits.simps)
next
  case (Suc e)
  have "2 ^ e \<le> n div 2" using Suc.prems by simp
  moreover have "n div 2 < 2 ^ Suc e" using Suc.prems by simp
  ultimately have "bits (n div 2) = int e + 1" by (rule Suc.IH)
  moreover have "n \<noteq> 0" using Suc.prems by auto
  ultimately show ?case by (subst bits.simps) simp
qed

lemma expo_binade:
  assumes "2 ^ e \<le> \<bar>x\<bar>" and "\<bar>x\<bar> < 2 ^ Suc e"
  shows "expo x = int e"
proof -
  have one: "1 \<le> \<bar>x\<bar>"
    using assms(1) one_le_power [of "2::real" e] by linarith
  have "(2::int) ^ e \<le> \<lfloor>\<bar>x\<bar>\<rfloor>"
    using assms(1) by (simp add: le_floor_iff)
  then have lo: "2 ^ e \<le> nat \<lfloor>\<bar>x\<bar>\<rfloor>"
    by (simp add: le_nat_iff)
  have "\<lfloor>\<bar>x\<bar>\<rfloor> < (2::int) ^ Suc e"
    using assms(2) by (simp add: floor_less_iff)
  then have hi: "nat \<lfloor>\<bar>x\<bar>\<rfloor> < 2 ^ Suc e"
    by (simp add: nat_less_iff)
  from bits_binade [OF lo hi] one show ?thesis
    by (simp add: expo_def)
qed

lemma fl64_binade:
  assumes "2 ^ e \<le> \<bar>x\<bar>" and "\<bar>x\<bar> < 2 ^ Suc e"
  shows "fl64 x = of_int (round_even (x / pow2 (int e - 52))) * pow2 (int e - 52)"
  using expo_binade [OF assms] by (simp add: fl64_def Let_def)

lemma round_even_of_int: "round_even (of_int n) = n"
  by (simp add: round_even_def)

text \<open>A value with at least one integer bit and a 53-bit mantissa is its own rounding.\<close>

lemma fl64_exact:
  assumes "2 ^ e \<le> \<bar>x\<bar>" and "\<bar>x\<bar> < 2 ^ Suc e" and "x = of_int m * pow2 (int e - 52)"
  shows "fl64 x = x"
proof -
  have "x / pow2 (int e - 52) = of_int m"
    using assms(3) by (simp add: pow2_def)
  then show ?thesis
    using fl64_binade [OF assms(1,2)] assms(3) by (simp add: round_even_of_int)
qed

text \<open>Whole numbers below \<open>2 ^ 53\<close> are binary64 values.\<close>

lemma fl64_int:
  assumes "\<bar>n\<bar> < 2 ^ 53"
  shows "fl64 (of_int n) = of_int n"
proof (cases "n = 0")
  case True
  then show ?thesis by (simp add: fl64_zero)
next
  case False
  then have "1 \<le> nat \<bar>n\<bar>" by simp
  then obtain e where e: "2 ^ e \<le> nat \<bar>n\<bar>" "nat \<bar>n\<bar> < 2 ^ (e + 1)"
    using ex_power_ivl1 [of 2 "nat \<bar>n\<bar>"] by auto
  have "nat \<bar>n\<bar> < 2 ^ 53"
    using assms by (simp add: nat_less_iff)
  with e(1) have p: "(2::nat) ^ e < 2 ^ 53"
    by (rule le_less_trans)
  have "e < 53" by (rule power_less_imp_less_exp [OF _ p]) simp
  then have e52: "e \<le> 52" by simp
  have lo: "2 ^ e \<le> \<bar>real_of_int n\<bar>"
  proof -
    have "real (2 ^ e) \<le> real (nat \<bar>n\<bar>)" using e(1) by (simp only: of_nat_le_iff)
    then show ?thesis by simp
  qed
  have hi: "\<bar>real_of_int n\<bar> < 2 ^ Suc e"
  proof -
    have "real (nat \<bar>n\<bar>) < real (2 ^ (e + 1))" using e(2) by (simp only: of_nat_less_iff)
    then show ?thesis by simp
  qed
  have "real_of_int n = of_int (n * 2 ^ (52 - e)) * pow2 (int e - 52)"
    using e52 by (simp add: pow2_def nat_diff_distrib')
  with lo hi show ?thesis by (rule fl64_exact)
qed

lemma fl64_numeral:
  "(numeral k :: int) < 2 ^ 53 \<Longrightarrow> fl64 (numeral k) = numeral k"
  "(numeral k :: int) < 2 ^ 53 \<Longrightarrow> fl64 (- numeral k) = - numeral k"
  using fl64_int [of "numeral k"] fl64_int [of "- numeral k"] by simp_all

lemma fl64_one: "fl64 1 = 1"
  using fl64_int [of 1] by simp

lemma sqrt_225: "sqrt 225 = 15"
  by (rule real_sqrt_unique) simp_all

lemma tenth: "fl64 (1/10) = 3602879701896397 / 36028797018963968"
  by (simp add: fl64_def expo_def pow2_def round_even_def Let_def eval_nat_numeral)

lemma pow2_pos: "0 < pow2 e"
  by (simp add: pow2_def)

lemma round_even_shift:
  assumes "y - of_int \<lfloor>y\<rfloor> \<noteq> 1/2"
  shows "round_even (of_int n + y) = n + round_even y"
proof -
  have "\<lfloor>of_int n + y\<rfloor> = n + \<lfloor>y\<rfloor>" by simp
  then show ?thesis using assms by (simp add: round_even_def Let_def)
qed

lemma first_round: "fl64 (1200 - fl64 (1/10)) = 5277216008673690 / 2 ^ 42"
proof -
  let ?x = "1200 - 3602879701896397 / 36028797018963968 :: real"
  have "fl64 ?x = of_int (round_even (?x / pow2 (int 10 - 52))) * pow2 (int 10 - 52)"
    by (rule fl64_binade) simp_all
  then show ?thesis by (simp add: tenth pow2_def round_even_def Let_def)
qed

section \<open>Evaluating sample executions\<close>

lemmas game_defs = run_def gameState_def join_def move_def shoot_def disconnect_def tick_def
  update_zone_def zone_damage_def bullet_step_def collide_def hit_def advance_def candidate_def
  in_range_def euclid_def fadd_def fsub_def fmul_def MAP_SIZE_def INITIAL_ZONE_RADIUS_def
  Let_def map_ran_def string_of_nat.simps fl64_numeral fl64_zero fl64_one sqrt_225 first_round

lemma duel_players:
  "gs_players (run trig duel) =
     [(''a'', (spawned ''a'' ''Ann'' ''a'')\<lparr>p_kills := 1\<rparr>),
      (''b'', (spawned ''b'' ''Player'' ''b'')\<lparr>p_health := 0, p_isDead := True\<rparr>)]"
  by (simp add: game_defs)

lemma orphan_players:
  "gs_players (run trig orphan) = [(''b'', (spawned ''b'' ''Player'' ''b'')\<lparr>p_health := 20\<rparr>)]"
  by (simp add: game_defs)

lemma orphan_bullets: "gs_bullets (run trig orphan) = [shot ''a'' ''a'' ''5'']"
  by (simp add: game_defs)

lemma duo_lobby_players:
  "gs_players (run trig duo_lobby) =
     [(''a'', spawned ''a'' ''Player'' ''team-d-0''), (''b'', spawned ''b'' ''Player'' ''team-d-0'')]"
  by (simp add: game_defs)

lemma duo_lobby_bullets: "gs_bullets (run trig duo_lobby) = [shot ''a'' ''team-d-0'' ''1'']"
  by (simp add: game_defs)

lemma advance_shot:
  "advance trig (shot sid team new_id) = (shot sid team new_id)\<lparr>b_x := 1015, b_distance := 15\<rparr>"
  by (simp add: game_defs)

section \<open>Joining\<close>

lemma join_players:
  "map_of (gs_players (join s sid name mode r1 r2)) sid =
     Some \<lparr>p_id = sid,
       p_name = (case name of None \<Rightarrow> ''Player'' | Some nm \<Rightarrow> if nm = [] then ''Player'' else nm),
       p_x = fmul r1 MAP_SIZE, p_y = fmul r2 MAP_SIZE, p_health = 100,
       p_teamId = (if mode = ''solo'' then sid
                   else if mode = ''duo'' then ''team-d-'' @ string_of_nat (length (gs_players s) div 2)
                   else ''team-s-'' @ string_of_nat (length (gs_players s) div 4)),
       p_kills = 0, p_isDead = False, p_angle = 0\<rparr>"
  by (simp add: join_def Let_def update_conv')

text \<open>
  Claim C10. A join whose name is absent or the empty string creates a player whose display
  name is \<open>Player\<close>; a join with a non-empty name creates a player with that name.
\<close>

theorem join_name_default:
  "map_option p_name (map_of (gs_players (join s sid None mode r1 r2)) sid) = Some ''Player'' \<and>
   map_option p_name (map_of (gs_players (join s sid (Some []) mode r1 r2)) sid) = Some ''Player'' \<and>
   map_option p_name (map_of (gs_players (join s sid (Some (c # cs)) mode r1 r2)) sid) = Some (c # cs)"
  by (simp add: join_players)

text \<open>
  Claim C1 says that a join for a socket id that already has a player changes nothing.
  The handler has no such test: it assigns a new player to the key. Here a player joins
  at \<open>(1000, 1000)\<close> and joins again with other random numbers, and has moved to
  \<open>(500, 500)\<close>.
\<close>

theorem join_twice_counterexample:
  "map_of (gs_players (join (join gameState ''a'' (Some ''Ann'') ''solo'' (1/2) (1/2))
       ''a'' (Some ''Ann'') ''solo'' (1/4) (1/4))) ''a''
   \<noteq> map_of (gs_players (join gameState ''a'' (Some ''Ann'') ''solo'' (1/2) (1/2))) ''a''"
  by (simp add: join_players fmul_def MAP_SIZE_def fl64_numeral)

text \<open>
  Claim C1, amended. A join for a socket id that already has a player replaces that player
  by a new one: the given name or \<open>Player\<close>, a new random position, health 100, the team
  of the mode and of the present number of players, no kills, alive, angle 0. The keys of
  the store and their order, every other player, the bullets and the zone stay as they are.
\<close>

theorem join_overwrites:
  assumes "map_of (gs_players s) sid = Some old"
  shows "map_of (gs_players (join s sid name mode r1 r2)) =
      (map_of (gs_players s))(sid \<mapsto>
        \<lparr>p_id = sid,
         p_name = (case name of None \<Rightarrow> ''Player'' | Some nm \<Rightarrow> if nm = [] then ''Player'' else nm),
         p_x = fmul r1 MAP_SIZE, p_y = fmul r2 MAP_SIZE, p_health = 100,
         p_teamId = (if mode = ''solo'' then sid
                     else if mode = ''duo''
                       then ''team-d-'' @ string_of_nat (length (gs_players s) div 2)
                     else ''team-s-'' @ string_of_nat (length (gs_players s) div 4)),
         p_kills = 0, p_isDead = False, p_angle = 0\<rparr>) \<and>
    map fst (gs_players (join s sid name mode r1 r2)) = map fst (gs_players s) \<and>
    gs_bullets (join s sid name mode r1 r2) = gs_bullets s \<and>
    gs_zone (join s sid name mode r1 r2) = gs_zone s"
proof -
  have "sid \<in> set (map fst (gs_players s))"
    using assms by (auto dest: map_of_SomeD intro: rev_image_eqI)
  then show ?thesis by (simp add: join_def Let_def update_conv' update_keys)
qed

theorem join_overwrites_witness:
  "map_of (gs_players (run trig duel)) ''b''
     = Some ((spawned ''b'' ''Player'' ''b'')\<lparr>p_health := 0, p_isDead := True\<rparr>) \<and>
   map_of (gs_players (join (run trig duel) ''b'' (Some ''Bob'') ''solo'' (1/2) (1/2))) ''b''
     = Some (spawned ''b'' ''Bob'' ''b'') \<and>
   map fst (gs_players (join (run trig duel) ''b'' (Some ''Bob'') ''solo'' (1/2) (1/2)))
     = map fst (gs_players (run trig duel))"
proof -
  have h: "map_of (gs_players (run trig duel)) ''b''
      = Some ((spawned ''b'' ''Player'' ''b'')\<lparr>p_health := 0, p_isDead := True\<rparr>)"
    by (simp add: duel_players)
  from join_overwrites [OF h, of "Some ''Bob''" "''solo''" "1/2" "1/2"] h show ?thesis
    by (simp add: fmul_def MAP_SIZE_def fl64_numeral)
qed

subsection \<open>Teams\<close>

lemma string_of_nat_nonempty: "string_of_nat n \<noteq> []"
  by (subst string_of_nat.simps) simp

lemma digit_inj:
  assumes "m < 10" and "n < 10" and "''0123456789'' ! m = ''0123456789'' ! n"
  shows "m = n"
proof -
  have "distinct ''0123456789''" by simp
  moreover have "m < length ''0123456789''" and "n < length ''0123456789''"
    using assms(1,2) by simp_all
  ultimately show ?thesis using assms(3) by (simp only: nth_eq_iff_index_eq)
qed

lemma string_of_nat_inj: "string_of_nat m = string_of_nat n \<Longrightarrow> m = n"
proof (induction m arbitrary: n rule: less_induct)
  case (less m)
  show ?case
  proof (cases "m < 10")
    case m: True
    show ?thesis
    proof (cases "n < 10")
      case True
      with m less.prems show ?thesis
        by (simp add: string_of_nat.simps [of m] string_of_nat.simps [of n] digit_inj)
    next
      case False
      with m less.prems string_of_nat_nonempty [of "n div 10"] show ?thesis
        by (simp add: string_of_nat.simps [of m] string_of_nat.simps [of n])
    qed
  next
    case m: False
    show ?thesis
    proof (cases "n < 10")
      case True
      with m less.prems string_of_nat_nonempty [of "m div 10"] show ?thesis
        by (simp add: string_of_nat.simps [of m] string_of_nat.simps [of n])
    next
      case False
      with m less.prems have q: "string_of_nat (m div 10) = string_of_nat (n div 10)"
        and r: "''0123456789'' ! (m mod 10) = ''0123456789'' ! (n mod 10)"
        by (simp_all add: string_of_nat.simps [of m] string_of_nat.simps [of n])
      have "m div 10 < m" using m by simp
      then have "m div 10 = n div 10" using q by (rule less.IH)
      moreover have "m mod 10 = n mod 10" using r by (intro digit_inj) simp_all
      ultimately show ?thesis by (metis div_mult_mod_eq)
    qed
  qed
qed

lemma join_length:
  "sid \<notin> fst ` set (gs_players s) \<Longrightarrow>
     length (gs_players (join s sid name mode r1 r2)) = Suc (length (gs_players s))"
  using arg_cong [OF update_keys, of length sid _ "gs_players s"]
  by (simp add: join_def Let_def)

lemma join_keys:
  "fst ` set (gs_players (join s sid name mode r1 r2)) = insert sid (fst ` set (gs_players s))"
  by (simp add: join_def Let_def dom_update)

lemma join_other:
  "k \<noteq> sid \<Longrightarrow> map_of (gs_players (join s sid name mode r1 r2)) k = map_of (gs_players s) k"
  by (simp add: join_def Let_def update_conv')

lemma join_duo_team:
  "map_option p_teamId (map_of (gs_players (join s sid name ''duo'' r1 r2)) sid)
     = Some (''team-d-'' @ string_of_nat (length (gs_players s) div 2))"
  by (simp add: join_players)

text \<open>
  Claim C8. When the store holds an even number of players, as the empty store does, and
  four new players join in duo mode one after the other, the first two get one team
  identity and the last two get another one.
\<close>

theorem duo_pairs:
  assumes "even (length (gs_players s))"
    and "distinct [a, b, c, d]"
    and "set [a, b, c, d] \<inter> fst ` set (gs_players s) = {}"
    and "s4 = join (join (join (join s a na ''duo'' xa ya) b nb ''duo'' xb yb)
                 c nc ''duo'' xc yc) d nd ''duo'' xd yd"
  shows "\<exists>t u. t \<noteq> u \<and>
    map_option p_teamId (map_of (gs_players s4) a) = Some t \<and>
    map_option p_teamId (map_of (gs_players s4) b) = Some t \<and>
    map_option p_teamId (map_of (gs_players s4) c) = Some u \<and>
    map_option p_teamId (map_of (gs_players s4) d) = Some u"
proof -
  let ?n = "length (gs_players s)"
  let ?s1 = "join s a na ''duo'' xa ya"
  let ?s2 = "join ?s1 b nb ''duo'' xb yb"
  let ?s3 = "join ?s2 c nc ''duo'' xc yc"
  let ?t = "''team-d-'' @ string_of_nat (?n div 2)"
  let ?u = "''team-d-'' @ string_of_nat (Suc (?n div 2))"
  have l1: "length (gs_players ?s1) = Suc ?n"
    using assms(3) by (simp add: join_length)
  have "b \<notin> fst ` set (gs_players ?s1)"
    using assms(2,3) by (auto simp: join_keys)
  then have l2: "length (gs_players ?s2) = Suc (Suc ?n)"
    using l1 by (simp add: join_length)
  have "c \<notin> fst ` set (gs_players ?s2)"
    using assms(2,3) by (auto simp: join_keys)
  then have l3: "length (gs_players ?s3) = Suc (Suc (Suc ?n))"
    using l2 by (simp add: join_length)
  have d1: "Suc ?n div 2 = ?n div 2" using assms(1) by simp
  have d2: "Suc (Suc ?n) div 2 = Suc (?n div 2)" by simp
  have d3: "Suc (Suc (Suc ?n)) div 2 = Suc (?n div 2)" using assms(1) by simp
  have "map_option p_teamId (map_of (gs_players s4) a) = Some ?t"
    using assms(2) unfolding assms(4) by (simp add: join_other join_duo_team)
  moreover have "map_option p_teamId (map_of (gs_players s4) b) = Some ?t"
    using assms(2) unfolding assms(4) by (simp add: join_other join_duo_team l1 d1)
  moreover have "map_option p_teamId (map_of (gs_players s4) c) = Some ?u"
    using assms(2) unfolding assms(4) by (simp add: join_other join_duo_team l2 d2)
  moreover have "map_option p_teamId (map_of (gs_players s4) d) = Some ?u"
    unfolding assms(4) by (simp add: join_duo_team l3 d1 d3)
  moreover have "?t \<noteq> ?u"
    using string_of_nat_inj [of "?n div 2" "Suc (?n div 2)"] by auto
  ultimately show ?thesis by blast
qed

theorem duo_pairs_witness:
  "even (length (gs_players gameState)) \<and>
   distinct [''a'', ''b'', ''c'', ''d''] \<and>
   set [''a'', ''b'', ''c'', ''d''] \<inter> fst ` set (gs_players gameState) = {} \<and>
   (\<exists>t u. t \<noteq> u \<and>
     map_option p_teamId (map_of (gs_players (join (join (join (join gameState
       ''a'' None ''duo'' 0 0) ''b'' None ''duo'' 0 0) ''c'' None ''duo'' 0 0)
       ''d'' None ''duo'' 0 0)) ''a'') = Some t \<and>
     map_option p_teamId (map_of (gs_players (join (join (join (join gameState
       ''a'' None ''duo'' 0 0) ''b'' None ''duo'' 0 0) ''c'' None ''duo'' 0 0)
       ''d'' None ''duo'' 0 0)) ''b'') = Some t \<and>
     map_option p_teamId (map_of (gs_players (join (join (join (join gameState
       ''a'' None ''duo'' 0 0) ''b'' None ''duo'' 0 0) ''c'' None ''duo'' 0 0)
       ''d'' None ''duo'' 0 0)) ''c'') = Some u \<and>
     map_option p_teamId (map_of (gs_players (join (join (join (join gameState
       ''a'' None ''duo'' 0 0) ''b'' None ''duo'' 0 0) ''c'' None ''duo'' 0 0)
       ''d'' None ''duo'' 0 0)) ''d'') = Some u)"
proof -
  have e: "even (length (gs_players gameState))" by (simp add: gameState_def)
  have d: "distinct [''a'', ''b'', ''c'', ''d'']" by simp
  have f: "set [''a'', ''b'', ''c'', ''d''] \<inter> fst ` set (gs_players gameState) = {}"
    by (simp add: gameState_def)
  note w = duo_pairs [OF e d f refl, where na = None and nb = None and nc = None and nd = None
      and xa = 0 and ya = 0 and xb = 0 and yb = 0 and xc = 0 and yc = 0 and xd = 0 and yd = 0]
  show ?thesis by (intro conjI e d f w)
qed

section \<open>Dead players\<close>

text \<open>
  Claim C5. When the player of a socket id is dead, a move and a shoot from that socket
  change nothing: the state after the handler is the state before it, and so the player's
  position, health and angle are what they were.
\<close>

theorem dead_player_frozen:
  assumes "map_of (gs_players s) sid = Some p" and "p_isDead p"
  shows "move s sid x y a = s \<and> shoot s sid new_id = s \<and>
    map_of (gs_players (move s sid x y a)) sid = Some p \<and>
    map_of (gs_players (shoot s sid new_id)) sid = Some p"
  using assms by (simp add: move_def shoot_def)

theorem dead_player_frozen_witness:
  "map_of (gs_players (run trig duel)) ''b''
     = Some ((spawned ''b'' ''Player'' ''b'')\<lparr>p_health := 0, p_isDead := True\<rparr>) \<and>
   p_isDead ((spawned ''b'' ''Player'' ''b'')\<lparr>p_health := 0, p_isDead := True\<rparr>) \<and>
   move (run trig duel) ''b'' 3 4 1 = run trig duel \<and>
   shoot (run trig duel) ''b'' ''6'' = run trig duel"
proof -
  have h: "map_of (gs_players (run trig duel)) ''b''
      = Some ((spawned ''b'' ''Player'' ''b'')\<lparr>p_health := 0, p_isDead := True\<rparr>)"
    by (simp add: duel_players)
  have i: "p_isDead ((spawned ''b'' ''Player'' ''b'')\<lparr>p_health := 0, p_isDead := True\<rparr>)"
    by simp
  from dead_player_frozen [OF h i] h i show ?thesis by blast
qed

lemma set_update_subset: "set (AList.update k v ps) \<subseteq> insert (k, v) (set ps)"
  by (induction ps) auto

lemma all_consistent_update:
  "all_consistent ps \<Longrightarrow> consistent v \<Longrightarrow> all_consistent (AList.update k v ps)"
  using set_update_subset [of k v ps] by (auto simp: all_consistent_def)

lemma all_consistent_lookup:
  "all_consistent ps \<Longrightarrow> map_of ps k = Some v \<Longrightarrow> consistent v"
  by (fastforce simp: all_consistent_def dest: map_of_SomeD)

lemma scan_Some:
  "scan b ps = Some (pid, p) \<Longrightarrow> (pid, p) \<in> set ps \<and> candidate b p \<and> in_range b p"
  by (induction ps) (auto split: if_splits)

lemma hit_consistent:
  assumes "all_consistent ps" and "\<not> p_isDead p"
  shows "all_consistent (hit b pid p ps)"
proof (cases "fsub (p_health p) 20 \<le> 0")
  case True
  let ?v = "p\<lparr>p_health := fsub (p_health p) 20, p_isDead := True\<rparr>"
  have v: "consistent ?v" using True by (simp add: consistent_def)
  have ps1: "all_consistent (AList.update pid ?v ps)"
    using assms(1) v by (rule all_consistent_update)
  show ?thesis
  proof (cases "map_of (AList.update pid ?v ps) (b_ownerId b)")
    case None
    then show ?thesis using True ps1 by (simp add: hit_def)
  next
    case (Some killer)
    have "consistent killer" using ps1 Some by (rule all_consistent_lookup)
    then have "consistent (killer\<lparr>p_kills := p_kills killer + 1\<rparr>)"
      by (simp add: consistent_def)
    with ps1 have "all_consistent (AList.update (b_ownerId b) (killer\<lparr>p_kills := p_kills killer + 1\<rparr>)
        (AList.update pid ?v ps))"
      by (rule all_consistent_update)
    then show ?thesis using True Some by (simp add: hit_def)
  qed
next
  case False
  then have "consistent (p\<lparr>p_health := fsub (p_health p) 20\<rparr>)"
    using assms(2) by (simp add: consistent_def)
  with assms(1) have "all_consistent (AList.update pid (p\<lparr>p_health := fsub (p_health p) 20\<rparr>) ps)"
    by (rule all_consistent_update)
  then show ?thesis using False by (simp add: hit_def)
qed

lemma bullet_step_consistent:
  assumes "all_consistent ps"
  shows "all_consistent (snd (bullet_step E b ps))"
proof (cases "scan (advance E b) ps")
  case None
  then show ?thesis using assms by (simp add: bullet_step_def collide_def Let_def)
next
  case (Some e)
  obtain pid p where e: "e = (pid, p)" by (cases e)
  have "\<not> p_isDead p" using scan_Some [of "advance E b" ps pid p] Some e
    by (simp add: candidate_def)
  with assms have "all_consistent (hit (advance E b) pid p ps)" by (rule hit_consistent)
  then show ?thesis using assms Some e by (simp add: bullet_step_def collide_def Let_def)
qed

lemma update_bullets_consistent:
  "all_consistent ps \<Longrightarrow> all_consistent (snd (update_bullets E bs ps))"
proof (induction bs)
  case Nil
  then show ?case by simp
next
  case (Cons b bs)
  then have "all_consistent (snd (bullet_step E b (snd (update_bullets E bs ps))))"
    by (simp add: bullet_step_consistent)
  then show ?case by (simp add: case_prod_unfold Let_def)
qed

lemma zone_damage_consistent: "consistent p \<Longrightarrow> consistent (zone_damage z p)"
  by (simp add: zone_damage_def consistent_def Let_def)

lemma map_ran_consistent:
  "all_consistent ps \<Longrightarrow> all_consistent (AList.map_ran (\<lambda>pid. zone_damage z) ps)"
  by (auto simp: all_consistent_def map_ran_def zone_damage_consistent)

lemma tick_consistent: "all_consistent (gs_players s) \<Longrightarrow> all_consistent (gs_players (tick E s))"
  using map_ran_consistent [OF update_bullets_consistent
      [where ps = "gs_players s" and E = E and bs = "gs_bullets s"]]
  by (simp add: tick_def case_prod_unfold Let_def)

lemma join_consistent:
  "all_consistent (gs_players s) \<Longrightarrow> all_consistent (gs_players (join s sid name mode r1 r2))"
  by (simp add: join_def Let_def all_consistent_update consistent_def)

lemma move_consistent:
  "all_consistent (gs_players s) \<Longrightarrow> all_consistent (gs_players (move s sid x y a))"
  by (auto simp: move_def consistent_def split: option.splits
      intro!: all_consistent_update dest: all_consistent_lookup)

lemma shoot_players: "gs_players (shoot s sid new_id) = gs_players s"
  by (simp add: shoot_def split: option.splits)

lemma disconnect_consistent:
  "all_consistent (gs_players s) \<Longrightarrow> all_consistent (gs_players (disconnect s sid))"
  by (auto simp: disconnect_def all_consistent_def AList.delete_eq)

lemma step_consistent:
  "all_consistent (gs_players s) \<Longrightarrow> all_consistent (gs_players (step E s ev))"
  by (cases ev)
    (simp_all add: join_consistent move_consistent shoot_players disconnect_consistent tick_consistent)

lemma run_snoc: "run E (evs @ [ev]) = step E (run E evs) ev"
  by (simp add: run_def)

lemma run_consistent: "all_consistent (gs_players (run E evs))"
proof (induction evs rule: rev_induct)
  case Nil
  show ?case by (simp add: run_def gameState_def all_consistent_def)
next
  case (snoc ev evs)
  then show ?case by (simp add: run_snoc step_consistent)
qed

text \<open>
  Claim C4. After every handler and every round of the game loop, every player in the
  store is dead exactly when its health is at most 0.
\<close>

theorem dead_iff_no_health:
  assumes "(sid, p) \<in> set (gs_players (run E evs))"
  shows "p_isDead p \<longleftrightarrow> p_health p \<le> 0"
  using run_consistent [of E evs] assms by (auto simp: all_consistent_def consistent_def)

theorem dead_iff_no_health_witness:
  "(''b'', (spawned ''b'' ''Player'' ''b'')\<lparr>p_health := 0, p_isDead := True\<rparr>)
     \<in> set (gs_players (run trig duel)) \<and>
   p_isDead ((spawned ''b'' ''Player'' ''b'')\<lparr>p_health := 0, p_isDead := True\<rparr>) \<and>
   p_health ((spawned ''b'' ''Player'' ''b'')\<lparr>p_health := 0, p_isDead := True\<rparr>) \<le> 0"
proof -
  have h: "(''b'', (spawned ''b'' ''Player'' ''b'')\<lparr>p_health := 0, p_isDead := True\<rparr>)
      \<in> set (gs_players (run trig duel))"
    by (simp add: duel_players)
  from dead_iff_no_health [OF h] h show ?thesis by simp
qed

section \<open>Collisions\<close>

lemma advance_team: "b_teamId (advance E b) = b_teamId b"
  by (simp add: advance_def)

lemma advance_owner: "b_ownerId (advance E b) = b_ownerId b"
  by (simp add: advance_def)

lemma hit_health_other:
  "k \<noteq> pid \<Longrightarrow>
     map_option p_health (map_of (hit b pid p ps) k) = map_option p_health (map_of ps k)"
  by (auto simp: hit_def Let_def update_conv' split: option.splits)

lemma scan_lookup:
  assumes "distinct (map fst ps)" and "scan b ps = Some (pid, p)"
  shows "map_of ps pid = Some p"
  using assms scan_Some [of b ps pid p] by simp

lemma bullet_step_cases:
  obtains (gone) "bullet_step E b ps = (None, ps)"
  | (miss) "bullet_step E b ps = (Some (advance E b), ps)"
  | (struck) pid p where "scan (advance E b) ps = Some (pid, p)"
      and "bullet_step E b ps = (None, hit (advance E b) pid p ps)"
proof (cases "b_distance (advance E b) > b_maxDistance (advance E b)")
  case True
  then have "bullet_step E b ps = (None, ps)" by (simp add: bullet_step_def Let_def)
  then show ?thesis by (rule gone)
next
  case False
  show ?thesis
  proof (cases "scan (advance E b) ps")
    case None
    with False have "bullet_step E b ps = (Some (advance E b), ps)"
      by (simp add: bullet_step_def collide_def Let_def)
    then show ?thesis by (rule miss)
  next
    case (Some e)
    obtain pid p where e: "e = (pid, p)" by (cases e)
    with Some False have "bullet_step E b ps = (None, hit (advance E b) pid p ps)"
      by (simp add: bullet_step_def collide_def Let_def)
    with Some e show ?thesis by (auto intro: struck)
  qed
qed

text \<open>
  Claim C6. In a round of the bullet loop, a player whose team identity is the bullet's
  keeps its health, whatever the mode the identities came from.
\<close>

theorem no_friendly_fire:
  assumes "distinct (map fst ps)" and "map_of ps k = Some q" and "p_teamId q = b_teamId b"
  shows "map_option p_health (map_of (snd (bullet_step E b ps)) k) = Some (p_health q)"
proof (cases E b ps rule: bullet_step_cases)
  case gone
  then show ?thesis using assms(2) by simp
next
  case miss
  then show ?thesis using assms(2) by simp
next
  case (struck pid p)
  have "map_of ps pid = Some p" using assms(1) struck(1) by (rule scan_lookup)
  moreover have "p_teamId p \<noteq> b_teamId b"
    using scan_Some [OF struck(1)] by (simp add: candidate_def advance_team)
  ultimately have "k \<noteq> pid" using assms(2,3) by auto
  then show ?thesis using struck(2) assms(2) by (simp add: hit_health_other)
qed

theorem no_friendly_fire_witness:
  "distinct (map fst (gs_players (run trig duo_lobby))) \<and>
   map_of (gs_players (run trig duo_lobby)) ''b'' = Some (spawned ''b'' ''Player'' ''team-d-0'') \<and>
   p_teamId (spawned ''b'' ''Player'' ''team-d-0'') = b_teamId (shot ''a'' ''team-d-0'' ''1'') \<and>
   map_option p_health (map_of (snd (bullet_step trig (shot ''a'' ''team-d-0'' ''1'')
     (gs_players (run trig duo_lobby)))) ''b'') = Some 100"
proof -
  have d: "distinct (map fst (gs_players (run trig duo_lobby)))"
    by (simp add: duo_lobby_players)
  have h: "map_of (gs_players (run trig duo_lobby)) ''b'' = Some (spawned ''b'' ''Player'' ''team-d-0'')"
    by (simp add: duo_lobby_players)
  have t: "p_teamId (spawned ''b'' ''Player'' ''team-d-0'') = b_teamId (shot ''a'' ''team-d-0'' ''1'')"
    by simp
  from no_friendly_fire [OF d h t] d h t show ?thesis by simp
qed

text \<open>
  One round of the loop for one bullet changes the health of at most one player, and a
  bullet that stays in the array has changed nothing.
\<close>

lemma bullet_step_one_victim:
  assumes "bullet_step E b ps = (kept, ps')"
  shows "(kept = None \<or> ps' = ps) \<and>
    (\<exists>pid. \<forall>k. k \<noteq> pid \<longrightarrow>
       map_option p_health (map_of ps' k) = map_option p_health (map_of ps k))"
proof (cases E b ps rule: bullet_step_cases)
  case gone
  then show ?thesis using assms by simp
next
  case miss
  then show ?thesis using assms by simp
next
  case (struck pid p)
  then have "kept = None" and "ps' = hit (advance E b) pid p ps" using assms by simp_all
  then show ?thesis using hit_health_other [of _ pid "advance E b" p ps] by blast
qed

lemma advance_id: "b_id (advance E b) = b_id b"
  by (simp add: advance_def)

lemma update_bullets_Cons:
  "update_bullets E (b # bs) ps =
     (let bs1 = fst (update_bullets E bs ps); ps1 = snd (update_bullets E bs ps); b1 = advance E b
      in if b_distance b1 > b_maxDistance b1 then (bs1, ps1)
         else case scan b1 ps1 of
                None \<Rightarrow> (b1 # bs1, ps1)
              | Some (pid, p) \<Rightarrow> (bs1, hit b1 pid p ps1))"
  by (simp add: bullet_step_def collide_def Let_def case_prod_unfold split: option.splits)

lemma round_ids_subset:
  "set (map b_id (fst (update_bullets E bs ps))) \<union> set (map (\<lambda>h. b_id (fst h)) (round_hits E bs ps))
     \<subseteq> set (map b_id bs)"
proof (induction bs)
  case Nil
  show ?case by simp
next
  case (Cons b bs)
  then show ?case
    by (auto simp: update_bullets_Cons Let_def advance_id split: option.splits
        simp del: update_bullets.simps)
qed

lemma round_ids_distinct:
  "distinct (map b_id bs) \<Longrightarrow>
     distinct (map b_id (fst (update_bullets E bs ps))) \<and>
     distinct (map (\<lambda>h. b_id (fst h)) (round_hits E bs ps)) \<and>
     set (map b_id (fst (update_bullets E bs ps))) \<inter> set (map (\<lambda>h. b_id (fst h)) (round_hits E bs ps)) = {}"
proof (induction bs)
  case Nil
  show ?case by simp
next
  case (Cons b bs)
  have new: "b_id b \<notin> set (map b_id (fst (update_bullets E bs ps)))"
    "b_id b \<notin> set (map (\<lambda>h. b_id (fst h)) (round_hits E bs ps))"
    using Cons.prems round_ids_subset [of E bs ps] by auto
  have IH: "distinct (map b_id (fst (update_bullets E bs ps)))"
    "distinct (map (\<lambda>h. b_id (fst h)) (round_hits E bs ps))"
    "set (map b_id (fst (update_bullets E bs ps))) \<inter> set (map (\<lambda>h. b_id (fst h)) (round_hits E bs ps)) = {}"
    using Cons by simp_all
  show ?case
    using new IH
    by (auto simp: update_bullets_Cons Let_def advance_id split: option.splits
        simp del: update_bullets.simps)
qed

lemma round_players:
  "snd (update_bullets E bs ps)
     = foldl (\<lambda>qs (b, pid, p). hit b pid p qs) ps (round_hits E bs ps)"
proof (induction bs)
  case Nil
  show ?case by simp
next
  case (Cons b bs)
  then show ?case
    by (simp add: update_bullets_Cons Let_def split: option.splits del: update_bullets.simps)
qed

lemma hits_from_snoc:
  "hits_from E s (evs @ [ev]) = hits_from E s evs @
     (if ev = Tick
      then round_hits E (gs_bullets (foldl (step E) s evs)) (gs_players (foldl (step E) s evs))
      else [])"
  by (induction evs arbitrary: s) simp_all

lemma hit_log_snoc:
  "hit_log E (evs @ [ev]) = hit_log E evs @
     (if ev = Tick then round_hits E (gs_bullets (run E evs)) (gs_players (run E evs)) else [])"
  by (simp add: hit_log_def run_def hits_from_snoc)

lemma shot_ids_snoc:
  "shot_ids (evs @ [ev]) = shot_ids evs @ (case ev of Shoot sid new_id \<Rightarrow> [new_id] | _ \<Rightarrow> [])"
  by (induction evs rule: shot_ids.induct) (simp_all split: event.splits)

lemma shoot_bullet_ids:
  "map b_id (gs_bullets (shoot s sid new_id)) = map b_id (gs_bullets s) \<or>
   map b_id (gs_bullets (shoot s sid new_id)) = map b_id (gs_bullets s) @ [new_id]"
  by (simp add: shoot_def split: option.splits)

lemma tick_bullets: "gs_bullets (tick E s) = fst (update_bullets E (gs_bullets s) (gs_players s))"
  by (simp add: tick_def Let_def case_prod_unfold)

lemma handler_bullets:
  "gs_bullets (join s sid name mode r1 r2) = gs_bullets s"
  "gs_bullets (move s sid x y a) = gs_bullets s"
  "gs_bullets (disconnect s sid) = gs_bullets s"
  by (simp_all add: join_def move_def disconnect_def Let_def split: option.splits)

lemma round_bookkeeping:
  fixes L H B B' S :: "'a list"
  assumes "distinct L" and "set L \<inter> set B = {}" and "set L \<subseteq> set S" and "set B \<subseteq> set S"
    and "set B' \<union> set H \<subseteq> set B" and "distinct B'" and "distinct H" and "set B' \<inter> set H = {}"
  shows "distinct B' \<and> set B' \<subseteq> set S \<and> set (L @ H) \<subseteq> set S \<and>
    set (L @ H) \<inter> set B' = {} \<and> distinct (L @ H)"
  using assms by auto

text \<open>
  When the ids of the shots are distinct, the bullets in the store have distinct ids, a
  bullet that has hit is not in the store, and no bullet has hit twice.
\<close>

lemma ids_invariant:
  assumes "distinct (shot_ids evs)"
  shows "distinct (map b_id (gs_bullets (run E evs))) \<and>
    set (map b_id (gs_bullets (run E evs))) \<subseteq> set (shot_ids evs) \<and>
    set (map (\<lambda>h. b_id (fst h)) (hit_log E evs)) \<subseteq> set (shot_ids evs) \<and>
    set (map (\<lambda>h. b_id (fst h)) (hit_log E evs)) \<inter> set (map b_id (gs_bullets (run E evs))) = {} \<and>
    distinct (map (\<lambda>h. b_id (fst h)) (hit_log E evs))"
  using assms
proof (induction evs rule: rev_induct)
  case Nil
  show ?case by (simp add: run_def gameState_def hit_log_def)
next
  case (snoc ev evs)
  let ?B = "map b_id (gs_bullets (run E evs))"
  let ?L = "map (\<lambda>h. b_id (fst h)) (hit_log E evs)"
  have "distinct (shot_ids evs)" using snoc.prems by (simp add: shot_ids_snoc)
  then have IH: "distinct ?B" "set ?B \<subseteq> set (shot_ids evs)" "set ?L \<subseteq> set (shot_ids evs)"
    "set ?L \<inter> set ?B = {}" "distinct ?L"
    using snoc.IH by simp_all
  show ?case
  proof (cases ev)
    case (Join sid name mode r1 r2)
    then show ?thesis using IH
      by (simp add: run_snoc handler_bullets hit_log_snoc shot_ids_snoc)
  next
    case (Move sid x y a)
    then show ?thesis using IH
      by (simp add: run_snoc handler_bullets hit_log_snoc shot_ids_snoc)
  next
    case (Disconnect sid)
    then show ?thesis using IH
      by (simp add: run_snoc handler_bullets hit_log_snoc shot_ids_snoc)
  next
    case (Shoot sid new_id)
    then have new: "new_id \<notin> set (shot_ids evs)"
      using snoc.prems by (simp add: shot_ids_snoc)
    from shoot_bullet_ids [of "run E evs" sid new_id] show ?thesis
    proof
      assume "map b_id (gs_bullets (shoot (run E evs) sid new_id)) = ?B"
      then show ?thesis using Shoot IH
        by (auto simp: run_snoc hit_log_snoc shot_ids_snoc)
    next
      assume "map b_id (gs_bullets (shoot (run E evs) sid new_id)) = ?B @ [new_id]"
      then show ?thesis using Shoot IH new
        by (auto simp: run_snoc hit_log_snoc shot_ids_snoc)
    qed
  next
    case Tick
    let ?bs = "gs_bullets (run E evs)"
    let ?ps = "gs_players (run E evs)"
    let ?B' = "map b_id (fst (update_bullets E ?bs ?ps))"
    let ?H = "map (\<lambda>h. b_id (fst h)) (round_hits E ?bs ?ps)"
    have sub: "set ?B' \<union> set ?H \<subseteq> set ?B"
      by (rule round_ids_subset)
    have dis: "distinct ?B'" "distinct ?H" "set ?B' \<inter> set ?H = {}"
      using round_ids_distinct [OF IH(1), of E ?ps] by simp_all
    have B: "map b_id (gs_bullets (run E (evs @ [ev]))) = ?B'"
      using Tick by (simp add: run_snoc tick_bullets)
    have L: "map (\<lambda>h. b_id (fst h)) (hit_log E (evs @ [ev])) = ?L @ ?H"
      using Tick by (simp add: hit_log_snoc)
    have S: "shot_ids (evs @ [ev]) = shot_ids evs"
      using Tick by (simp add: shot_ids_snoc)
    show ?thesis unfolding B L S
      using round_bookkeeping [OF IH(5) IH(4) IH(3) IH(2) sub dis] .
  qed
qed

lemma hits_health_other:
  "k \<notin> (\<lambda>h. fst (snd h)) ` set hs \<Longrightarrow>
     map_option p_health (map_of (foldl (\<lambda>qs (b, pid, p). hit b pid p qs) ps hs) k)
       = map_option p_health (map_of ps k)"
  by (induction hs arbitrary: ps) (auto simp: hit_health_other)

lemma volley_state:
  "gs_players (run trig volley)
     = [(''a'', spawned ''a'' ''Ann'' ''a''), (''b'', spawned ''b'' ''Player'' ''b'')]"
  "gs_bullets (run trig volley)
     = [shot ''a'' ''a'' ''1'', shot ''a'' ''a'' ''2'', shot ''a'' ''a'' ''3'',
        shot ''a'' ''a'' ''4'', shot ''a'' ''a'' ''5'']"
  by (simp_all add: game_defs)

lemma volley_hits:
  "map (\<lambda>h. (b_id (fst h), fst (snd h))) (round_hits trig (gs_bullets (run trig volley)) (gs_players (run trig volley)))
     = [(''5'', ''b''), (''4'', ''b''), (''3'', ''b''), (''2'', ''b''), (''1'', ''b'')]"
  unfolding volley_state by (simp add: game_defs)

lemma volley_after: "gs_bullets (run trig (volley @ [Tick])) = []"
  by (simp add: game_defs)

text \<open>
  Claim C7. In every execution in which the ids of the shots are distinct:
  no bullet has more than one hit in the whole execution;
  a bullet that hits in a round of the loop is not in the store after that round;
  the bullets after the round are those that the bullet loop kept;
  the players after the bullet loop are the players before it with the body of the range
  test run once for each hit, in order, and nothing else;
  and so a player that no hit of the round names has the health it had.
  Each hit is the damage of one bullet to one player.
\<close>

theorem bullet_hits_once:
  assumes "distinct (shot_ids evs)"
  shows "distinct (map (\<lambda>h. b_id (fst h)) (hit_log E evs)) \<and>
    (\<forall>h \<in> set (round_hits E (gs_bullets (run E evs)) (gs_players (run E evs))).
       b_id (fst h) \<notin> b_id ` set (gs_bullets (run E (evs @ [Tick])))) \<and>
    gs_bullets (run E (evs @ [Tick]))
      = fst (update_bullets E (gs_bullets (run E evs)) (gs_players (run E evs))) \<and>
    snd (update_bullets E (gs_bullets (run E evs)) (gs_players (run E evs)))
      = foldl (\<lambda>qs (b, pid, p). hit b pid p qs) (gs_players (run E evs))
          (round_hits E (gs_bullets (run E evs)) (gs_players (run E evs))) \<and>
    (\<forall>k. k \<notin> (\<lambda>h. fst (snd h)) ` set (round_hits E (gs_bullets (run E evs)) (gs_players (run E evs)))
       \<longrightarrow> map_option p_health
             (map_of (snd (update_bullets E (gs_bullets (run E evs)) (gs_players (run E evs)))) k)
           = map_option p_health (map_of (gs_players (run E evs)) k))"
proof -
  let ?bs = "gs_bullets (run E evs)"
  let ?ps = "gs_players (run E evs)"
  have inv: "distinct (map b_id ?bs)" "distinct (map (\<lambda>h. b_id (fst h)) (hit_log E evs))"
    using ids_invariant [OF assms, of E] by simp_all
  have after: "gs_bullets (run E (evs @ [Tick])) = fst (update_bullets E ?bs ?ps)"
    by (simp add: run_snoc tick_bullets)
  have "set (map b_id (fst (update_bullets E ?bs ?ps)))
      \<inter> set (map (\<lambda>h. b_id (fst h)) (round_hits E ?bs ?ps)) = {}"
    using round_ids_distinct [OF inv(1), of E ?ps] by simp
  then have gone: "\<forall>h \<in> set (round_hits E ?bs ?ps).
      b_id (fst h) \<notin> b_id ` set (gs_bullets (run E (evs @ [Tick])))"
    unfolding after by auto
  have players: "snd (update_bullets E ?bs ?ps)
      = foldl (\<lambda>qs (b, pid, p). hit b pid p qs) ?ps (round_hits E ?bs ?ps)"
    by (rule round_players)
  have others: "\<forall>k. k \<notin> (\<lambda>h. fst (snd h)) ` set (round_hits E ?bs ?ps)
      \<longrightarrow> map_option p_health (map_of (snd (update_bullets E ?bs ?ps)) k)
          = map_option p_health (map_of ?ps k)"
    unfolding players by (simp add: hits_health_other)
  show ?thesis by (intro conjI inv(2) gone after players others)
qed

theorem bullet_hits_once_witness:
  "distinct (shot_ids (volley @ [Tick])) \<and>
   map (\<lambda>h. (b_id (fst h), fst (snd h)))
       (round_hits trig (gs_bullets (run trig volley)) (gs_players (run trig volley)))
     = [(''5'', ''b''), (''4'', ''b''), (''3'', ''b''), (''2'', ''b''), (''1'', ''b'')] \<and>
   gs_bullets (run trig (volley @ [Tick])) = [] \<and>
   distinct (map (\<lambda>h. b_id (fst h)) (hit_log trig (volley @ [Tick])))"
proof -
  have d: "distinct (shot_ids (volley @ [Tick]))" by simp
  have l: "distinct (map (\<lambda>h. b_id (fst h)) (hit_log trig (volley @ [Tick])))"
    using bullet_hits_once [OF d, of trig] by blast
  show ?thesis by (intro conjI d volley_hits volley_after l)
qed

text \<open>
  Claim C9. When the owner of a bullet is no longer in the store and the bullet hits a
  living player whose health the hit brings to 0 or below, the round removes the bullet,
  lowers the health of that player and marks it dead, and leaves the kill count of every
  player as it was.
\<close>

theorem absent_owner_kill:
  assumes "distinct (map fst ps)"
    and "map_of ps (b_ownerId b) = None"
    and "\<not> b_distance (advance E b) > b_maxDistance (advance E b)"
    and "scan (advance E b) ps = Some (pid, v)"
    and "0 < p_health v"
    and "fsub (p_health v) 20 \<le> 0"
  shows "\<exists>ps'. bullet_step E b ps = (None, ps') \<and>
    map_of ps' pid = Some (v\<lparr>p_health := fsub (p_health v) 20, p_isDead := True\<rparr>) \<and>
    fsub (p_health v) 20 < p_health v \<and>
    (\<forall>k. map_option p_kills (map_of ps' k) = map_option p_kills (map_of ps k))"
proof -
  let ?v = "v\<lparr>p_health := fsub (p_health v) 20, p_isDead := True\<rparr>"
  have v: "map_of ps pid = Some v" using assms(1,4) by (rule scan_lookup)
  then have ne: "b_ownerId b \<noteq> pid" using assms(2) by auto
  then have "map_of (AList.update pid ?v ps) (b_ownerId b) = None"
    using assms(2) by (simp add: update_conv')
  then have h: "hit (advance E b) pid v ps = AList.update pid ?v ps"
    using assms(6) by (simp add: hit_def Let_def advance_owner)
  have "bullet_step E b ps = (None, AList.update pid ?v ps)"
    using assms(3,4) h by (simp add: bullet_step_def collide_def Let_def)
  moreover have "map_of (AList.update pid ?v ps) pid = Some ?v"
    by (simp add: update_conv')
  moreover have "fsub (p_health v) 20 < p_health v" using assms(5,6) by simp
  moreover have "\<forall>k. map_option p_kills (map_of (AList.update pid ?v ps) k)
      = map_option p_kills (map_of ps k)"
    using v by (simp add: update_conv')
  ultimately show ?thesis by blast
qed

theorem absent_owner_kill_witness:
  "distinct (map fst (gs_players (run trig orphan))) \<and>
   map_of (gs_players (run trig orphan)) (b_ownerId (shot ''a'' ''a'' ''5'')) = None \<and>
   \<not> b_distance (advance trig (shot ''a'' ''a'' ''5'')) > b_maxDistance (advance trig (shot ''a'' ''a'' ''5'')) \<and>
   scan (advance trig (shot ''a'' ''a'' ''5'')) (gs_players (run trig orphan))
     = Some (''b'', (spawned ''b'' ''Player'' ''b'')\<lparr>p_health := 20\<rparr>) \<and>
   (\<exists>ps'. bullet_step trig (shot ''a'' ''a'' ''5'') (gs_players (run trig orphan)) = (None, ps') \<and>
      map_of ps' ''b'' = Some ((spawned ''b'' ''Player'' ''b'')\<lparr>p_health := 0, p_isDead := True\<rparr>) \<and>
      (\<forall>k. map_option p_kills (map_of ps' k)
         = map_option p_kills (map_of (gs_players (run trig orphan)) k)))"
proof -
  let ?b = "shot ''a'' ''a'' ''5''"
  let ?v = "(spawned ''b'' ''Player'' ''b'')\<lparr>p_health := 20\<rparr>"
  have d: "distinct (map fst (gs_players (run trig orphan)))"
    by (simp add: orphan_players)
  have o: "map_of (gs_players (run trig orphan)) (b_ownerId ?b) = None"
    by (simp add: orphan_players)
  have f: "\<not> b_distance (advance trig ?b) > b_maxDistance (advance trig ?b)"
    by (simp add: advance_shot)
  have s: "scan (advance trig ?b) (gs_players (run trig orphan)) = Some (''b'', ?v)"
    by (simp add: orphan_players advance_shot game_defs)
  have h: "0 < p_health ?v" by simp
  have l: "fsub (p_health ?v) 20 \<le> 0" by (simp add: fsub_def fl64_zero)
  have c: "\<exists>ps'. bullet_step trig ?b (gs_players (run trig orphan)) = (None, ps') \<and>
      map_of ps' ''b'' = Some ((spawned ''b'' ''Player'' ''b'')\<lparr>p_health := 0, p_isDead := True\<rparr>) \<and>
      (\<forall>k. map_option p_kills (map_of ps' k)
         = map_option p_kills (map_of (gs_players (run trig orphan)) k))"
    using absent_owner_kill [OF d o f s h l] by (simp add: fsub_def fl64_zero)
  show ?thesis by (intro conjI d o f s c)
qed

section \<open>The zone\<close>

text \<open>
  While the radius stays between two powers of two, binary64 values are \<open>u\<close> apart, and
  a round of the loop takes the same whole number \<open>d\<close> of steps \<open>u\<close> off the radius.
\<close>

lemma update_zone_step:
  assumes u: "u = pow2 (int e - 52)"
    and tie: "- (fl64 (1/10) / u) - of_int \<lfloor>- (fl64 (1/10) / u)\<rfloor> \<noteq> 1/2"
    and d: "d = - round_even (- (fl64 (1/10) / u))"
    and gt: "50 < of_int N * u"
    and lo: "2 ^ e \<le> of_int N * u - fl64 (1/10)"
    and hi: "of_int N * u - fl64 (1/10) < 2 ^ Suc e"
  shows "update_zone (z\<lparr>z_radius := of_int N * u\<rparr>) = z\<lparr>z_radius := of_int (N - d) * u\<rparr>"
proof -
  let ?c = "fl64 (1/10)"
  let ?x = "of_int N * u - ?c"
  have upos: "0 < u" using u by (simp add: pow2_pos)
  have "0 \<le> ?x" using lo zero_le_power [of "2::real" e] by linarith
  then have ax: "\<bar>?x\<bar> = ?x" by simp
  have quot: "?x / u = of_int N + (- (?c / u))"
    using upos by (simp add: field_simps)
  have "round_even (?x / u) = N + round_even (- (?c / u))"
    unfolding quot using tie by (rule round_even_shift)
  then have "round_even (?x / u) = N - d" using d by simp
  moreover have "fl64 ?x = of_int (round_even (?x / u)) * u"
    using fl64_binade [of e ?x] lo hi ax u by simp
  ultimately have "fl64 ?x = of_int (N - d) * u" by simp
  then show ?thesis using gt by (simp add: update_zone_def fsub_def)
qed

lemma update_zone_run:
  assumes u: "u = pow2 (int e - 52)"
    and tie: "- (fl64 (1/10) / u) - of_int \<lfloor>- (fl64 (1/10) / u)\<rfloor> \<noteq> 1/2"
    and d: "d = - round_even (- (fl64 (1/10) / u))"
    and dpos: "0 \<le> d"
    and gt: "50 < of_int (N - (int K - 1) * d) * u"
    and lo: "2 ^ e \<le> of_int (N - (int K - 1) * d) * u - fl64 (1/10)"
    and hi: "of_int N * u - fl64 (1/10) < 2 ^ Suc e"
    and k: "k \<le> K"
  shows "(update_zone ^^ k) (z\<lparr>z_radius := of_int N * u\<rparr>)
    = z\<lparr>z_radius := of_int (N - int k * d) * u\<rparr>"
  using k
proof (induction k)
  case 0
  show ?case by simp
next
  case (Suc k)
  let ?M = "N - int k * d"
  have upos: "0 \<le> u" using u pow2_pos [of "int e - 52"] by simp
  have "0 \<le> (int K - 1 - int k) * d"
    using Suc.prems dpos by (intro mult_nonneg_nonneg) simp_all
  then have "N - (int K - 1) * d \<le> ?M" by (simp add: algebra_simps)
  then have "(of_int (N - (int K - 1) * d) :: real) \<le> of_int ?M" by linarith
  then have down: "of_int (N - (int K - 1) * d) * u \<le> of_int ?M * u"
    using upos by (rule mult_right_mono)
  have "0 \<le> int k * d" using dpos by simp
  then have "(of_int ?M :: real) \<le> of_int N" by linarith
  then have up: "of_int ?M * u \<le> of_int N * u"
    using upos by (rule mult_right_mono)
  have "update_zone (z\<lparr>z_radius := of_int ?M * u\<rparr>) = z\<lparr>z_radius := of_int (?M - d) * u\<rparr>"
    using u tie d
  proof (rule update_zone_step)
    show "50 < of_int ?M * u" using gt down by linarith
    show "2 ^ e \<le> of_int ?M * u - fl64 (1/10)" using lo down by linarith
    show "of_int ?M * u - fl64 (1/10) < 2 ^ Suc e" using hi up by linarith
  qed
  moreover have "(update_zone ^^ k) (z\<lparr>z_radius := of_int N * u\<rparr>) = z\<lparr>z_radius := of_int ?M * u\<rparr>"
    using Suc by simp
  moreover have "?M - d = N - int (Suc k) * d"
    by (simp add: algebra_simps)
  ultimately show ?case by simp
qed

lemma funpow_chain: "(f ^^ a) x = y \<Longrightarrow> (f ^^ b) y = z \<Longrightarrow> (f ^^ (a + b)) x = z"
  by (simp add: funpow_add add.commute [of a b])

lemma zone_step: "gs_zone (step E s ev) = (if ev = Tick then update_zone (gs_zone s) else gs_zone s)"
  by (cases ev) (simp_all add: join_def move_def shoot_def disconnect_def tick_def Let_def
      case_prod_unfold split: option.splits)

lemma zone_run:
  "gs_zone (run E evs) = (update_zone ^^ count_list evs Tick) (gs_zone gameState)"
proof (induction evs rule: rev_induct)
  case Nil
  show ?case by (simp add: run_def)
next
  case (snoc ev evs)
  then show ?case by (simp add: run_snoc zone_step)
qed

lemma segment_antitone:
  assumes start: "(update_zone ^^ off) z0 = z\<lparr>z_radius := of_int N * u\<rparr>"
    and seg: "\<And>k. k \<le> K \<Longrightarrow>
      (update_zone ^^ k) (z\<lparr>z_radius := of_int N * u\<rparr>) = z\<lparr>z_radius := of_int (N - int k * d) * u\<rparr>"
    and d: "0 \<le> d" and u: "0 \<le> u"
    and n: "off \<le> n" "n < off + K"
  shows "z_radius ((update_zone ^^ Suc n) z0) \<le> z_radius ((update_zone ^^ n) z0)"
proof -
  obtain k where k: "n = k + off" "k < K"
    using n by (metis add.commute le_Suc_ex nat_add_left_cancel_less)
  have at: "(update_zone ^^ (j + off)) z0 = z\<lparr>z_radius := of_int (N - int j * d) * u\<rparr>"
    if "j \<le> K" for j
    using that by (simp add: funpow_add start seg)
  have "(of_int (N - int (Suc k) * d) :: real) \<le> of_int (N - int k * d)"
    using d by (simp add: algebra_simps)
  then have "of_int (N - int (Suc k) * d) * u \<le> of_int (N - int k * d) * u"
    using u by (rule mult_right_mono)
  moreover have "(update_zone ^^ Suc n) z0 = z\<lparr>z_radius := of_int (N - int (Suc k) * d) * u\<rparr>"
    using at [of "Suc k"] k by simp
  moreover have "(update_zone ^^ n) z0 = z\<lparr>z_radius := of_int (N - int k * d) * u\<rparr>"
    using at [of k] k by simp
  ultimately show ?thesis by simp
qed

lemma zone_from_1024:
  assumes "k \<le> 1760"
  shows "(update_zone ^^ k) (z\<lparr>z_radius := of_int 5277655813324800 * (1 / 2 ^ 42)\<rparr>)
     = z\<lparr>z_radius := of_int (5277655813324800 - int k * 439804651110) * (1 / 2 ^ 42)\<rparr>"
  by (rule update_zone_run [where e = 10 and K = 1760])
    (simp_all add: assms pow2_def tenth round_even_def Let_def)

lemma zone_from_512:
  assumes "k \<le> 5120"
  shows "(update_zone ^^ k) (z\<lparr>z_radius := of_int 9007199254742400 * (1 / 2 ^ 43)\<rparr>)
     = z\<lparr>z_radius := of_int (9007199254742400 - int k * 879609302221) * (1 / 2 ^ 43)\<rparr>"
  by (rule update_zone_run [where e = 9 and K = 5120])
    (simp_all add: assms pow2_def tenth round_even_def Let_def)

lemma zone_from_256:
  assumes "k \<le> 2559"
  shows "(update_zone ^^ k) (z\<lparr>z_radius := of_int 9007199254741760 * (1 / 2 ^ 44)\<rparr>)
     = z\<lparr>z_radius := of_int (9007199254741760 - int k * 1759218604442) * (1 / 2 ^ 44)\<rparr>"
  by (rule update_zone_run [where e = 8 and K = 2559])
    (simp_all add: assms pow2_def tenth round_even_def Let_def)

lemma zone_from_128:
  assumes "k \<le> 1280"
  shows "(update_zone ^^ k) (z\<lparr>z_radius := of_int 9010717691949364 * (1 / 2 ^ 45)\<rparr>)
     = z\<lparr>z_radius := of_int (9010717691949364 - int k * 3518437208883) * (1 / 2 ^ 45)\<rparr>"
  by (rule update_zone_run [where e = 7 and K = 1280])
    (simp_all add: assms pow2_def tenth round_even_def Let_def)

lemma zone_from_64:
  assumes "k \<le> 640"
  shows "(update_zone ^^ k) (z\<lparr>z_radius := of_int 9014236129158248 * (1 / 2 ^ 46)\<rparr>)
     = z\<lparr>z_radius := of_int (9014236129158248 - int k * 7036874417766) * (1 / 2 ^ 46)\<rparr>"
  by (rule update_zone_run [where e = 6 and K = 640])
    (simp_all add: assms pow2_def tenth round_even_def Let_def)

lemma zone_from_32:
  assumes "k \<le> 141"
  shows "(update_zone ^^ k) (z\<lparr>z_radius := of_int 9021273003576016 * (1 / 2 ^ 47)\<rparr>)
     = z\<lparr>z_radius := of_int (9021273003576016 - int k * 14073748835533) * (1 / 2 ^ 47)\<rparr>"
  by (rule update_zone_run [where e = 5 and K = 141])
    (simp_all add: assms pow2_def tenth round_even_def Let_def)

text \<open>The radius at the round where it enters each interval, and at the end.\<close>

lemma zone_at:
  "(update_zone ^^ 0) (z\<lparr>z_radius := 1200\<rparr>) = z\<lparr>z_radius := of_int 5277655813324800 * (1 / 2 ^ 42)\<rparr>"
  "(update_zone ^^ 1760) (z\<lparr>z_radius := 1200\<rparr>) = z\<lparr>z_radius := of_int 9007199254742400 * (1 / 2 ^ 43)\<rparr>"
  "(update_zone ^^ 6880) (z\<lparr>z_radius := 1200\<rparr>) = z\<lparr>z_radius := of_int 9007199254741760 * (1 / 2 ^ 44)\<rparr>"
  "(update_zone ^^ 9439) (z\<lparr>z_radius := 1200\<rparr>) = z\<lparr>z_radius := of_int 9010717691949364 * (1 / 2 ^ 45)\<rparr>"
  "(update_zone ^^ 10719) (z\<lparr>z_radius := 1200\<rparr>) = z\<lparr>z_radius := of_int 9014236129158248 * (1 / 2 ^ 46)\<rparr>"
  "(update_zone ^^ 11359) (z\<lparr>z_radius := 1200\<rparr>) = z\<lparr>z_radius := of_int 9021273003576016 * (1 / 2 ^ 47)\<rparr>"
  "(update_zone ^^ 11500) (z\<lparr>z_radius := 1200\<rparr>) = z\<lparr>z_radius := 7036874417765863 / 2 ^ 47\<rparr>"
proof -
  let ?z = "z\<lparr>z_radius := 1200\<rparr>"
  show a0: "(update_zone ^^ 0) ?z = z\<lparr>z_radius := of_int 5277655813324800 * (1 / 2 ^ 42)\<rparr>"
    by simp
  have "(update_zone ^^ 1760) (z\<lparr>z_radius := of_int 5277655813324800 * (1 / 2 ^ 42)\<rparr>)
      = z\<lparr>z_radius := of_int 9007199254742400 * (1 / 2 ^ 43)\<rparr>"
    using zone_from_1024 [of 1760 z] by simp
  with a0 have "(update_zone ^^ (0 + 1760)) ?z = z\<lparr>z_radius := of_int 9007199254742400 * (1 / 2 ^ 43)\<rparr>"
    by (rule funpow_chain)
  then show a1: "(update_zone ^^ 1760) ?z = z\<lparr>z_radius := of_int 9007199254742400 * (1 / 2 ^ 43)\<rparr>"
    by simp
  have "(update_zone ^^ 5120) (z\<lparr>z_radius := of_int 9007199254742400 * (1 / 2 ^ 43)\<rparr>)
      = z\<lparr>z_radius := of_int 9007199254741760 * (1 / 2 ^ 44)\<rparr>"
    using zone_from_512 [of 5120 z] by simp
  with a1 have "(update_zone ^^ (1760 + 5120)) ?z = z\<lparr>z_radius := of_int 9007199254741760 * (1 / 2 ^ 44)\<rparr>"
    by (rule funpow_chain)
  then show a2: "(update_zone ^^ 6880) ?z = z\<lparr>z_radius := of_int 9007199254741760 * (1 / 2 ^ 44)\<rparr>"
    by simp
  have "(update_zone ^^ 2559) (z\<lparr>z_radius := of_int 9007199254741760 * (1 / 2 ^ 44)\<rparr>)
      = z\<lparr>z_radius := of_int 9010717691949364 * (1 / 2 ^ 45)\<rparr>"
    using zone_from_256 [of 2559 z] by simp
  with a2 have "(update_zone ^^ (6880 + 2559)) ?z = z\<lparr>z_radius := of_int 9010717691949364 * (1 / 2 ^ 45)\<rparr>"
    by (rule funpow_chain)
  then show a3: "(update_zone ^^ 9439) ?z = z\<lparr>z_radius := of_int 9010717691949364 * (1 / 2 ^ 45)\<rparr>"
    by simp
  have "(update_zone ^^ 1280) (z\<lparr>z_radius := of_int 9010717691949364 * (1 / 2 ^ 45)\<rparr>)
      = z\<lparr>z_radius := of_int 9014236129158248 * (1 / 2 ^ 46)\<rparr>"
    using zone_from_128 [of 1280 z] by simp
  with a3 have "(update_zone ^^ (9439 + 1280)) ?z = z\<lparr>z_radius := of_int 9014236129158248 * (1 / 2 ^ 46)\<rparr>"
    by (rule funpow_chain)
  then show a4: "(update_zone ^^ 10719) ?z = z\<lparr>z_radius := of_int 9014236129158248 * (1 / 2 ^ 46)\<rparr>"
    by simp
  have "(update_zone ^^ 640) (z\<lparr>z_radius := of_int 9014236129158248 * (1 / 2 ^ 46)\<rparr>)
      = z\<lparr>z_radius := of_int 9021273003576016 * (1 / 2 ^ 47)\<rparr>"
    using zone_from_64 [of 640 z] by simp
  with a4 have "(update_zone ^^ (10719 + 640)) ?z = z\<lparr>z_radius := of_int 9021273003576016 * (1 / 2 ^ 47)\<rparr>"
    by (rule funpow_chain)
  then show a5: "(update_zone ^^ 11359) ?z = z\<lparr>z_radius := of_int 9021273003576016 * (1 / 2 ^ 47)\<rparr>"
    by simp
  have "(update_zone ^^ 141) (z\<lparr>z_radius := of_int 9021273003576016 * (1 / 2 ^ 47)\<rparr>)
      = z\<lparr>z_radius := 7036874417765863 / 2 ^ 47\<rparr>"
    using zone_from_32 [of 141 z] by simp
  with a5 have "(update_zone ^^ (11359 + 141)) ?z = z\<lparr>z_radius := 7036874417765863 / 2 ^ 47\<rparr>"
    by (rule funpow_chain)
  then show "(update_zone ^^ 11500) ?z = z\<lparr>z_radius := 7036874417765863 / 2 ^ 47\<rparr>"
    by simp
qed

lemma update_zone_rest: "z_radius z \<le> 50 \<Longrightarrow> (update_zone ^^ k) z = z"
  by (induction k) (simp_all add: update_zone_def)

lemma zone_late:
  "11500 \<le> n \<Longrightarrow> (update_zone ^^ n) (z\<lparr>z_radius := 1200\<rparr>) = z\<lparr>z_radius := 7036874417765863 / 2 ^ 47\<rparr>"
  using funpow_chain [OF zone_at(7) update_zone_rest, of z "n - 11500"]
  by simp

text \<open>The radius never grows from one round to the next.\<close>

lemma zone_antitone:
  "z_radius ((update_zone ^^ Suc n) (z\<lparr>z_radius := 1200\<rparr>))
     \<le> z_radius ((update_zone ^^ n) (z\<lparr>z_radius := 1200\<rparr>))"
proof -
  consider "n < 1760" | "1760 \<le> n" "n < 6880" | "6880 \<le> n" "n < 9439"
    | "9439 \<le> n" "n < 10719" | "10719 \<le> n" "n < 11359" | "11359 \<le> n" "n < 11500"
    | "11500 \<le> n"
    by linarith
  then show ?thesis
  proof cases
    case 1
    then show ?thesis
      by (intro segment_antitone [OF zone_at(1) zone_from_1024]) simp+
  next
    case 2
    then show ?thesis
      by (intro segment_antitone [OF zone_at(2) zone_from_512]) simp+
  next
    case 3
    then show ?thesis
      by (intro segment_antitone [OF zone_at(3) zone_from_256]) simp+
  next
    case 4
    then show ?thesis
      by (intro segment_antitone [OF zone_at(4) zone_from_128]) simp+
  next
    case 5
    then show ?thesis
      by (intro segment_antitone [OF zone_at(5) zone_from_64]) simp+
  next
    case 6
    then show ?thesis
      by (intro segment_antitone [OF zone_at(6) zone_from_32]) simp+
  next
    case 7
    then show ?thesis by (simp add: zone_late del: funpow.simps)
  qed
qed

lemma zone_tick: "gs_zone (tick E s) = update_zone (gs_zone s)"
  by (simp add: tick_def Let_def case_prod_unfold)

lemma zone_ticks: "gs_zone ((tick E ^^ n) s) = (update_zone ^^ n) (gs_zone s)"
  by (induction n) (simp_all add: zone_tick)

lemma zone_initial: "gs_zone gameState = (gs_zone gameState)\<lparr>z_radius := 1200\<rparr>"
  by (simp add: gameState_def INITIAL_ZONE_RADIUS_def)

text \<open>
  In every execution the radius never grows, starts at 1200 and stays at or above
  \<open>50 - 537 / 2 ^ 47\<close>, the value it reaches after 11500 rounds.
\<close>

lemma zone_radius_run:
  "z_radius (gs_zone (step E (run E evs) ev)) \<le> z_radius (gs_zone (run E evs))"
  "50 - 537 / 2 ^ 47 \<le> z_radius (gs_zone (run E evs))"
  "z_radius (gs_zone (run E evs)) \<le> 1200"
proof -
  let ?z = "(gs_zone gameState)\<lparr>z_radius := 1200\<rparr>"
  let ?R = "\<lambda>n. z_radius ((update_zone ^^ n) ?z)"
  let ?n = "count_list evs Tick"
  have R: "z_radius (gs_zone (run E evs)) = ?R ?n"
    by (simp add: zone_run zone_initial [symmetric])
  have anti: "?R j \<le> ?R i" if "i \<le> j" for i j
    using zone_antitone that by (rule lift_Suc_antimono_le)
  show "z_radius (gs_zone (step E (run E evs) ev)) \<le> z_radius (gs_zone (run E evs))"
  proof (cases "ev = Tick")
    case True
    have "z_radius (gs_zone (step E (run E evs) ev)) = ?R (Suc ?n)"
      using True by (simp add: zone_tick zone_run zone_initial [symmetric])
    then show ?thesis using anti [of ?n "Suc ?n"] R by simp
  next
    case False
    then show ?thesis by (simp add: zone_step)
  qed
  have "?R (?n + 11500) = 7036874417765863 / 2 ^ 47"
    by (simp add: zone_late del: funpow.simps)
  then show "50 - 537 / 2 ^ 47 \<le> z_radius (gs_zone (run E evs))"
    using anti [of ?n "?n + 11500"] R by simp
  show "z_radius (gs_zone (run E evs)) \<le> 1200"
    using anti [of 0 ?n] R by simp
qed

lemma radius_11500:
  "z_radius (gs_zone ((tick E ^^ (11500 + k)) gameState)) = 7036874417765863 / 2 ^ 47"
proof -
  have "(update_zone ^^ (11500 + k)) ((gs_zone gameState)\<lparr>z_radius := 1200\<rparr>)
      = (gs_zone gameState)\<lparr>z_radius := 7036874417765863 / 2 ^ 47\<rparr>"
    by (rule zone_late) simp
  then show ?thesis by (simp add: zone_ticks zone_initial [symmetric])
qed

lemma run_ticks: "run E (replicate n Tick) = (tick E ^^ n) gameState"
proof (induction n)
  case 0
  show ?case by (simp add: run_def)
next
  case (Suc n)
  have "run E (replicate (Suc n) Tick) = step E (run E (replicate n Tick)) Tick"
    unfolding run_snoc [symmetric] by (simp add: replicate_append_same)
  then show ?case using Suc by simp
qed

text \<open>
  Claim C2 says that the radius never grows and never falls below 50. The loop takes
  \<open>0.1\<close> off while the radius is above 50 and does not hold the result at 50, and the
  binary64 differences do not land on 50: when the loop has run 11500 times on the initial
  state, the radius is \<open>7036874417765863 / 2 ^ 47\<close>, below 50.
\<close>

theorem zone_below_floor: "z_radius (gs_zone (run E (replicate 11500 Tick))) < 50"
  using radius_11500 [where k = 0 and E = E] by (simp add: run_ticks)

text \<open>
  Claim C3 says that the radius is 50 after 11500 rounds and from then on. After 11500
  rounds from the initial state the radius is \<open>7036874417765863 / 2 ^ 47\<close>, which is
  \<open>50 - 537 / 2 ^ 47\<close>, and it keeps that value in every later round.
\<close>

theorem zone_after_11500:
  "z_radius (gs_zone ((tick E ^^ 11500) gameState)) = 7036874417765863 / 2 ^ 47 \<and>
   z_radius (gs_zone ((tick E ^^ 11500) gameState)) = 50 - 537 / 2 ^ 47 \<and>
   z_radius (gs_zone ((tick E ^^ 11500) gameState)) \<noteq> 50 \<and>
   (\<forall>k. z_radius (gs_zone ((tick E ^^ (11500 + k)) gameState)) = 7036874417765863 / 2 ^ 47)"
  using radius_11500 [where k = 0 and E = E] radius_11500 [where E = E] by simp

end
